theory Spec2Isabelle
  imports
    Complex_Main
    "HOL-Library.Sublist"
    "HOL-Library.Multiset"
    "HOL-Library.Char_ord"
    "HOL-Library.List_Lexorder"
    "HOL-Library.Product_Lexorder"
    "HOL-Library.Log_Nat"
begin

section \<open>Python strings\<close>

text \<open>
  Strings are modelled as lists of 8-bit characters holding ASCII text: \<open>str.lower\<close>,
  \<open>str.upper\<close> and \<open>re.IGNORECASE\<close> act on the letters A-Z and a-z only, and the order
  of strings is the lexicographic order of the character codes, as Python's is.
\<close>

text \<open>The characters \<open>str.strip()\<close> and \<open>str.split()\<close> treat as whitespace (ASCII range).\<close>

definition isspace :: "char \<Rightarrow> bool" where
  "isspace c = (c \<in> set [CHR 0x09, CHR 0x0A, CHR 0x0B, CHR 0x0C, CHR 0x0D,
                          CHR 0x1C, CHR 0x1D, CHR 0x1E, CHR 0x1F, CHR 0x20])"

text \<open>\<open>s.strip()\<close>: leading and trailing whitespace removed.\<close>

definition str_strip :: "string \<Rightarrow> string" where
  "str_strip s = rev (dropWhile isspace (rev (dropWhile isspace s)))"

text \<open>
  \<open>s.split()\<close>: the maximal runs of non-whitespace characters, in order. The first
  argument of \<open>split_from\<close> is the word being read.
\<close>

fun split_from :: "string \<Rightarrow> string \<Rightarrow> string list" where
  "split_from w [] = (if w = [] then [] else [w])"
| "split_from w (c # cs) =
     (if isspace c then (if w = [] then split_from [] cs else w # split_from [] cs)
      else split_from (w @ [c]) cs)"

definition str_split :: "string \<Rightarrow> string list" where
  "str_split s = split_from [] s"

definition char_lower :: "char \<Rightarrow> char" where
  "char_lower c =
     (if CHR ''A'' \<le> c \<and> c \<le> CHR ''Z'' then char_of (of_char c + (32::nat)) else c)"

definition char_upper :: "char \<Rightarrow> char" where
  "char_upper c =
     (if CHR ''a'' \<le> c \<and> c \<le> CHR ''z'' then char_of (of_char c - (32::nat)) else c)"

definition str_lower :: "string \<Rightarrow> string" where
  "str_lower s = map char_lower s"

definition str_upper :: "string \<Rightarrow> string" where
  "str_upper s = map char_upper s"

text \<open>\<open>p in s\<close> for two strings: \<open>p\<close> occurs in \<open>s\<close> as a contiguous substring.\<close>

fun str_in :: "string \<Rightarrow> string \<Rightarrow> bool" where
  "str_in p [] = (p = [])"
| "str_in p (c # cs) = (prefix p (c # cs) \<or> str_in p cs)"

section \<open>Outcomes of a call\<close>

text \<open>
  \<open>ReError\<close> is \<open>re.error\<close> (the pattern is not a regular expression);
  \<open>AttributeError\<close> is raised by openpyxl when the value of a \<open>MergedCell\<close> is assigned.
\<close>

datatype error = ReError | AttributeError

text \<open>
  A call returns, raises, or is outside what this development models: \<open>Unmodelled\<close>
  stands for the patterns of Python's \<open>re\<close> syntax that are not interpreted here, and
  nothing is stated about such a call.
\<close>

datatype 'a result = Returns 'a | Raises error | Unmodelled

fun bind_result :: "'a result \<Rightarrow> ('a \<Rightarrow> 'b result) \<Rightarrow> 'b result" where
  "bind_result (Returns x) f = f x"
| "bind_result (Raises e) f = Raises e"
| "bind_result Unmodelled f = Unmodelled"

section \<open>The regular expressions of \<open>Series.str.contains\<close>\<close>

text \<open>
  \<open>name_series.str.contains(pat, case=False, na=False)\<close> leaves \<open>regex\<close> at its default
  \<open>True\<close>: pandas compiles \<open>pat\<close> once with \<open>re.compile(pat, re.IGNORECASE)\<close> and keeps
  the elements where \<open>search\<close> finds a match. The fragment of the pattern syntax
  interpreted here: an ordinary character stands for itself, \<open>.\<close> for any character but
  a newline, a backslash before a character that is no ASCII letter or digit for that
  character, and a backslash that ends the pattern is an error. Every other use of a
  special character is \<open>Unmodelled\<close>.
\<close>

datatype atom = Lit char | AnyChar

definition re_special :: "char \<Rightarrow> bool" where
  "re_special c =
     (c \<in> set [CHR ''.'', CHR ''^'', CHR ''$'', CHR ''*'', CHR ''+'', CHR ''?'', CHR ''{'',
                  CHR ''}'', CHR ''['', CHR '']'', CHR 0x5C, CHR ''|'', CHR ''('', CHR '')''])"

definition ascii_alnum :: "char \<Rightarrow> bool" where
  "ascii_alnum c =
     ((CHR ''0'' \<le> c \<and> c \<le> CHR ''9'') \<or> (CHR ''A'' \<le> c \<and> c \<le> CHR ''Z'')
      \<or> (CHR ''a'' \<le> c \<and> c \<le> CHR ''z''))"

fun re_compile :: "string \<Rightarrow> atom list result" where
  "re_compile [] = Returns []"
| "re_compile [c] =
     (if c = CHR 0x5C then Raises ReError
      else if c = CHR ''.'' then Returns [AnyChar]
      else if re_special c then Unmodelled
      else Returns [Lit c])"
| "re_compile (c # d # cs) =
     (if c = CHR 0x5C then
        (if ascii_alnum d then Unmodelled
         else bind_result (re_compile cs) (\<lambda>as. Returns (Lit d # as)))
      else if c = CHR ''.'' then
        bind_result (re_compile (d # cs)) (\<lambda>as. Returns (AnyChar # as))
      else if re_special c then Unmodelled
      else bind_result (re_compile (d # cs)) (\<lambda>as. Returns (Lit c # as)))"

text \<open>Under \<open>re.IGNORECASE\<close> a literal matches both cases of a letter.\<close>

fun atom_matches :: "atom \<Rightarrow> char \<Rightarrow> bool" where
  "atom_matches (Lit a) x = (char_lower a = char_lower x)"
| "atom_matches AnyChar x = (x \<noteq> CHR 0x0A)"

fun match_here :: "atom list \<Rightarrow> string \<Rightarrow> bool" where
  "match_here [] s = True"
| "match_here (a # as) [] = False"
| "match_here (a # as) (x # xs) = (atom_matches a x \<and> match_here as xs)"

fun re_search :: "atom list \<Rightarrow> string \<Rightarrow> bool" where
  "re_search as [] = match_here as []"
| "re_search as (x # xs) = (match_here as (x # xs) \<or> re_search as xs)"

definition str_contains :: "string list \<Rightarrow> string \<Rightarrow> bool list result" where
  "str_contains name_series pat =
     bind_result (re_compile pat) (\<lambda>rx. Returns (map (re_search rx) name_series))"

section \<open>The long-form table\<close>

text \<open>
  A row of the DataFrame with the columns \<open>Time\<close>, \<open>Name\<close> and \<open>Value\<close>. A missing cell
  (NaT, NaN) is \<open>None\<close>. The type of the \<open>Value\<close> cells is a parameter: they are
  whatever the CSV reader produced.
\<close>

record 'v row =
  Time :: "int option"
  Name :: "string option"
  Value :: 'v

type_synonym 'v dataframe = "'v row list"

text \<open>\<open>astype(str)\<close> on the name column: a missing name becomes the text \<open>nan\<close>.\<close>

definition astype_str :: "string option \<Rightarrow> string" where
  "astype_str n = (case n of None \<Rightarrow> ''nan'' | Some s \<Rightarrow> s)"

text \<open>\<open>df[mask]\<close>: the rows whose position holds \<open>True\<close> in the boolean series.\<close>

definition mask_rows :: "'a list \<Rightarrow> bool list \<Rightarrow> 'a list" where
  "mask_rows df msk = map fst (filter snd (zip df msk))"

section \<open>\<open>match_rows\<close>\<close>

text \<open>The loop \<open>for kw in keywords: mask &= name_series.str.contains(kw, ...)\<close>.\<close>

fun and_keywords :: "string list \<Rightarrow> bool list \<Rightarrow> string list \<Rightarrow> bool list result" where
  "and_keywords name_series msk [] = Returns msk"
| "and_keywords name_series msk (kw # kws) =
     bind_result (str_contains name_series kw)
       (\<lambda>m. and_keywords name_series (map2 (\<and>) msk m) kws)"

definition exact_rows :: "'v dataframe \<Rightarrow> string \<Rightarrow> 'v dataframe" where
  "exact_rows df name = mask_rows df (map (\<lambda>n. n = name) (map (astype_str \<circ> Name) df))"

definition match_rows :: "'v dataframe \<Rightarrow> string \<Rightarrow> 'v dataframe result" where
  "match_rows df source_name =
     (let name = str_strip source_name in
      if name = [] \<or> df = [] then Returns []
      else
        let name_series = map (astype_str \<circ> Name) df;
            exact = exact_rows df name
        in if exact \<noteq> [] then Returns exact
           else
             bind_result (str_contains name_series name) (\<lambda>m.
               let contains = mask_rows df m
               in if contains \<noteq> [] then Returns contains
                  else
                    let keywords = filter (\<lambda>k. k \<noteq> []) (str_split name)
                    in bind_result
                         (and_keywords name_series (replicate (length df) True) keywords)
                         (\<lambda>msk. Returns (mask_rows df msk))))"

text \<open>
  The three tiers as the specification words them, the later two by plain
  case-insensitive substring tests: the statement \<open>match_rows\<close> is compared with.
\<close>

definition substring_rows :: "'v dataframe \<Rightarrow> string \<Rightarrow> 'v dataframe" where
  "substring_rows df name =
     filter (\<lambda>r. str_in (str_lower name) (str_lower (astype_str (Name r)))) df"

definition keyword_rows :: "'v dataframe \<Rightarrow> string \<Rightarrow> 'v dataframe" where
  "keyword_rows df name =
     filter (\<lambda>r. list_all (\<lambda>k. str_in (str_lower k) (str_lower (astype_str (Name r))))
                  (str_split name)) df"

definition spec_resolve :: "'v dataframe \<Rightarrow> string \<Rightarrow> 'v dataframe" where
  "spec_resolve df source_name =
     (let name = str_strip source_name in
      if name = [] \<or> df = [] then []
      else if exact_rows df name \<noteq> [] then exact_rows df name
      else if substring_rows df name \<noteq> [] then substring_rows df name
      else keyword_rows df name)"

section \<open>\<open>read_sources\<close>: the normalisation of the long table\<close>

text \<open>
  Of \<open>read_sources\<close> only what it does to the rows after the melt: the names are
  converted to text and stripped, and the rows without a time are dropped.
\<close>

definition normalize_long :: "'v dataframe \<Rightarrow> 'v dataframe" where
  "normalize_long df_long =
     filter (\<lambda>r. Time r \<noteq> None)
       (map (\<lambda>r. r\<lparr>Name := Some (str_strip (astype_str (Name r)))\<rparr>) df_long)"

section \<open>\<open>agg_values\<close>\<close>

text \<open>
  The \<open>Value\<close> column after the coercion is a float64 column (a column of integers
  only, which pandas keeps as int64, is outside the model). A float64 is modelled as
  the real number it denotes; what is not a number (NaN, the infinities, and with them
  overflow) is outside the model.
\<close>

text \<open>
  Rounding to the nearest float64, ties to the even significand: \<open>binade x\<close> is the
  exponent \<open>e\<close> with \<open>2 ^ e \<le> |x| < 2 ^ (e + 1)\<close>, and the spacing of the float64 numbers
  around \<open>x\<close> is \<open>2 ^ (e - 52)\<close>, or \<open>2 ^ -1074\<close> among the subnormal numbers.
\<close>

definition round_half_even :: "real \<Rightarrow> int" where
  "round_half_even r =
     (let f = \<lfloor>r\<rfloor>; d = r - of_int f
      in if d < 1 / 2 then f else if 1 / 2 < d then f + 1 else if even f then f else f + 1)"

definition binade :: "real \<Rightarrow> int" where
  "binade x = (if 1 \<le> \<bar>x\<bar> then bitlen \<lfloor>\<bar>x\<bar>\<rfloor> - 1 else - bitlen (\<lceil>1 / \<bar>x\<bar>\<rceil> - 1))"

definition pow2 :: "int \<Rightarrow> real" where
  "pow2 q = (if 0 \<le> q then 2 ^ nat q else 1 / 2 ^ nat (- q))"

definition f64_round :: "real \<Rightarrow> real" where
  "f64_round x =
     (if x = 0 then 0
      else let u = pow2 (max (binade x - 52) (- 1074))
           in of_int (round_half_even (x / u)) * u)"

text \<open>
  \<open>to_numeric\<close> is the elementwise result of \<open>pd.to_numeric(..., errors="coerce")\<close>,
  the number that the cell denotes or \<open>None\<close> for NaN, and is a parameter; the column
  holds that number as a float64. \<open>coerce_row\<close> is one row through the coercion and
  \<open>dropna(subset=[Value, Time])\<close>: a surviving row is kept as its time and its number.
\<close>

definition coerce_row :: "('v \<Rightarrow> real option) \<Rightarrow> 'v row \<Rightarrow> (int \<times> real) option" where
  "coerce_row to_numeric r =
     (case Time r of
        None \<Rightarrow> None
      | Some t \<Rightarrow>
          (case to_numeric (Value r) of None \<Rightarrow> None | Some x \<Rightarrow> Some (t, f64_round x)))"

definition survivors :: "('v \<Rightarrow> real option) \<Rightarrow> 'v dataframe \<Rightarrow> (int \<times> real) list" where
  "survivors to_numeric df = List.map_filter (coerce_row to_numeric) df"

text \<open>\<open>(agg or "LAST").upper().strip()\<close>; the mode may be \<open>None\<close> or empty.\<close>

definition agg_mode :: "string option \<Rightarrow> string" where
  "agg_mode agg =
     str_strip (str_upper (case agg of None \<Rightarrow> ''LAST'' | Some a \<Rightarrow> if a = [] then ''LAST'' else a))"

text \<open>
  \<open>df2.sort_values(COL_TIME)\<close> takes the rows in the order of the index list that numpy's
  \<open>argsort\<close> returns for the time column. Which index list that is among those that
  sort the column is the library's business (its default sort is not stable), so
  \<open>argsort\<close> is a parameter, and \<open>sorting_perm\<close> is what the library promises of its
  result: a permutation of the positions that puts the keys in ascending order.
\<close>

definition sorting_perm :: "nat list \<Rightarrow> int list \<Rightarrow> bool" where
  "sorting_perm idx keys = (sort idx = [0..<length keys] \<and> sorted (map ((!) keys) idx))"

definition sort_values :: "(int list \<Rightarrow> nat list) \<Rightarrow> (int \<times> real) list \<Rightarrow> (int \<times> real) list" where
  "sort_values argsort df2 = map ((!) df2) (argsort (map fst df2))"

text \<open>\<open>df2.sort_values(COL_TIME).iloc[-1][COL_VALUE]\<close>.\<close>

definition last_by_time :: "(int list \<Rightarrow> nat list) \<Rightarrow> (int \<times> real) list \<Rightarrow> real" where
  "last_by_time argsort df2 = snd (last (sort_values argsort df2))"

text \<open>
  \<open>col_sum\<close> is the sum of a float64 column as the library computes it
  (\<open>Series.sum()\<close>, and inside \<open>Series.mean()\<close>): a parameter, since the order in which
  the library adds, rounding each addition, is its own. \<open>mean()\<close> divides that sum by
  the number of values, one more rounded operation. The maximum and the minimum of
  floats are exact.
\<close>

definition agg_values ::
  "(int list \<Rightarrow> nat list) \<Rightarrow> (real list \<Rightarrow> real) \<Rightarrow> ('v \<Rightarrow> real option) \<Rightarrow>
     'v dataframe \<Rightarrow> string option \<Rightarrow> real option" where
  "agg_values argsort col_sum to_numeric df agg0 =
     (if df = [] then None
      else
        let agg = agg_mode agg0;
            df2 = survivors to_numeric df
        in if df2 = [] then None
           else if agg = ''LAST'' then Some (last_by_time argsort df2)
           else if agg = ''AVG'' then
             Some (f64_round (col_sum (map snd df2) / real (length df2)))
           else if agg = ''MAX'' then Some (Max (set (map snd df2)))
           else if agg = ''MIN'' then Some (Min (set (map snd df2)))
           else if agg = ''SUM'' then Some (col_sum (map snd df2))
           else Some (last_by_time argsort df2))"

text \<open>
  The rows that reach the maximal time all carry the same number: then no order among
  them can change what \<open>LAST\<close> returns.
\<close>

definition last_ties_agree :: "(int \<times> real) list \<Rightarrow> bool" where
  "last_ties_agree df2 =
     (\<forall>x \<in> set df2. \<forall>y \<in> set df2.
        (\<forall>z \<in> set df2. fst z \<le> fst x) \<and> (\<forall>z \<in> set df2. fst z \<le> fst y) \<longrightarrow> snd x = snd y)"

text \<open>
  Two instances of the library parameters, for evaluation on short frames only: the
  stable argsort (numpy sorts a column of at most 16 elements by insertion), and the
  float64 sum that adds from left to right (the sum of at most two numbers is one
  rounded addition, however the library associates).
\<close>

definition stable_argsort :: "int list \<Rightarrow> nat list" where
  "stable_argsort keys = map snd (sort_key fst (zip keys [0..<length keys]))"

definition seq_sum :: "real list \<Rightarrow> real" where
  "seq_sum vs = foldl (\<lambda>s x. f64_round (s + x)) 0 vs"

text \<open>
  What a float64 sum of three numbers can be: the two rounded additions, associated to
  the left or to the right, the same way for every column.
\<close>

definition f64_sum3 :: "(real list \<Rightarrow> real) \<Rightarrow> bool" where
  "f64_sum3 col_sum =
     ((\<forall>a b c. col_sum [a, b, c] = f64_round (f64_round (a + b) + c)) \<or>
      (\<forall>a b c. col_sum [a, b, c] = f64_round (a + f64_round (b + c))))"

section \<open>\<open>miss_candidates\<close>\<close>

text \<open>\<open>Series.unique()\<close>: the distinct values in the order of their first occurrence.\<close>

definition unique :: "'a list \<Rightarrow> 'a list" where
  "unique xs = rev (remdups (rev xs))"

text \<open>\<open>xs[:k]\<close>: a negative \<open>k\<close> counts from the end.\<close>

definition slice_to :: "int \<Rightarrow> 'a list \<Rightarrow> 'a list" where
  "slice_to k xs = (if 0 \<le> k then take (nat k) xs else take (length xs - nat (- k)) xs)"

text \<open>\<open>sum(1 for k in kws if k.lower() in n_low)\<close>.\<close>

definition score :: "string list \<Rightarrow> string \<Rightarrow> int" where
  "score kws n = int (length (filter (\<lambda>k. str_in (str_lower k) (str_lower n)) kws))"

definition miss_candidates :: "'v dataframe \<Rightarrow> string \<Rightarrow> int \<Rightarrow> string list" where
  "miss_candidates df_win src0 topk =
     (if df_win = [] then []
      else
        let src = str_strip src0 in
        if src = [] then []
        else
          let candidates = unique (List.map_filter Name df_win);
              kws = filter (\<lambda>k. k \<noteq> []) (str_split src)
          in if kws = [] then []
             else
               let hits = filter (\<lambda>h. 0 < fst h) (map (\<lambda>n. (score kws n, n)) candidates);
                   sorted_hits = sort_key (\<lambda>h. (- fst h, snd h)) hits
               in map snd (slice_to topk sorted_hits))"

text \<open>
  The order of the ranking: a name comes before another when it scores more, or scores
  the same and is the smaller string.
\<close>

definition ranked_before :: "string list \<Rightarrow> string \<Rightarrow> string \<Rightarrow> bool" where
  "ranked_before kws a b = (score kws b < score kws a \<or> (score kws a = score kws b \<and> a < b))"

section \<open>The worksheet and \<open>_safe_write_cell\<close>\<close>

text \<open>
  An address is a (row, column) pair, both counted from 1: the parsed form of a
  coordinate such as \<open>E34\<close>. A position of the sheet holds a \<open>Cell\<close> with its value or a
  read-only \<open>MergedCell\<close>; \<open>merged_cells\<close> are the sheet's merged ranges in the order
  \<open>ws.merged_cells.ranges\<close> yields them.
\<close>

type_synonym coord = "nat \<times> nat"

datatype cell_value = Empty | Text string | Number real

datatype cell = Cell cell_value | MergedCell

record cell_range =
  min_row :: nat
  min_col :: nat
  max_row :: nat
  max_col :: nat

record worksheet =
  cells :: "coord \<Rightarrow> cell"
  merged_cells :: "cell_range list"

text \<open>\<open>addr in r\<close>.\<close>

definition range_contains :: "cell_range \<Rightarrow> coord \<Rightarrow> bool" where
  "range_contains r addr =
     (min_row r \<le> fst addr \<and> fst addr \<le> max_row r \<and> min_col r \<le> snd addr \<and> snd addr \<le> max_col r)"

definition anchor :: "cell_range \<Rightarrow> coord" where
  "anchor r = (min_row r, min_col r)"

text \<open>\<open>cell.value = value\<close>; a \<open>MergedCell\<close> refuses the assignment.\<close>

definition set_value :: "worksheet \<Rightarrow> coord \<Rightarrow> cell_value \<Rightarrow> worksheet result" where
  "set_value ws addr v =
     (case cells ws addr of
        MergedCell \<Rightarrow> Raises AttributeError
      | Cell old \<Rightarrow> Returns (ws\<lparr>cells := (cells ws)(addr := Cell v)\<rparr>))"

text \<open>
  The function returns \<open>None\<close> on every path: the result is the unit value beside the
  sheet as the call leaves it.
\<close>

definition safe_write_cell :: "worksheet \<Rightarrow> coord \<Rightarrow> cell_value \<Rightarrow> (unit \<times> worksheet) result" where
  "safe_write_cell ws addr v =
     (case cells ws addr of
        MergedCell \<Rightarrow>
          (case find (\<lambda>r. range_contains r addr) (merged_cells ws) of
             Some r \<Rightarrow> bind_result (set_value ws (anchor r) v) (\<lambda>ws'. Returns ((), ws'))
           | None \<Rightarrow> Returns ((), ws))
      | Cell old \<Rightarrow> bind_result (set_value ws addr v) (\<lambda>ws'. Returns ((), ws')))"

text \<open>What the caller receives from a call: the value returned or the exception raised.\<close>

fun signal :: "('a \<times> worksheet) result \<Rightarrow> 'a result" where
  "signal (Returns (x, ws)) = Returns x"
| "signal (Raises e) = Raises e"
| "signal Unmodelled = Unmodelled"

text \<open>
  A sheet as openpyxl builds it: the merged ranges are pairwise disjoint, the top-left
  position of each holds a \<open>Cell\<close>, and every other position of it a \<open>MergedCell\<close>.
\<close>

definition range_coords :: "cell_range \<Rightarrow> coord list" where
  "range_coords r =
     concat (map (\<lambda>i. map (\<lambda>j. (i, j)) [min_col r ..< Suc (max_col r)])
                 [min_row r ..< Suc (max_row r)])"

fun disjoint_ranges :: "cell_range list \<Rightarrow> bool" where
  "disjoint_ranges [] = True"
| "disjoint_ranges (r # rs) =
     ((\<forall>s \<in> set rs. \<forall>a \<in> set (range_coords r). \<not> range_contains s a) \<and> disjoint_ranges rs)"

definition well_formed :: "worksheet \<Rightarrow> bool" where
  "well_formed ws =
     (disjoint_ranges (merged_cells ws) \<and>
      (\<forall>r \<in> set (merged_cells ws). \<forall>a \<in> set (range_coords r).
         (cells ws a = MergedCell) = (a \<noteq> anchor r)))"

section \<open>Example tables and sheets\<close>

text \<open>
  The tables of the specification's scenarios, with times in minutes of the day and
  value cells that are already numbers or NaN (so that \<open>to_numeric\<close> is the identity).
\<close>

definition tbl_pump :: "real option dataframe" where
  "tbl_pump =
     [\<lparr>Time = Some 600, Name = Some ''Pump A Flow'', Value = Some 12.5\<rparr>,
      \<lparr>Time = Some 610, Name = Some ''Pump A Flow'', Value = Some 13\<rparr>]"

definition tbl_tie :: "real option dataframe" where
  "tbl_tie =
     [\<lparr>Time = Some 600, Name = Some ''Pump A Flow'', Value = Some 1\<rparr>,
      \<lparr>Time = Some 600, Name = Some ''Pump A Flow'', Value = Some 2\<rparr>]"

definition tbl_big :: "real option dataframe" where
  "tbl_big =
     [\<lparr>Time = Some 600, Name = Some ''Pump A Flow'', Value = Some 0.5\<rparr>,
      \<lparr>Time = Some 601, Name = Some ''Pump A Flow'', Value = Some 10000000000000000\<rparr>,
      \<lparr>Time = Some 602, Name = Some ''Pump A Flow'', Value = Some (- 10000000000000000)\<rparr>]"

definition tbl_dropped :: "real option dataframe" where
  "tbl_dropped =
     [\<lparr>Time = None, Name = Some ''Pump A Flow'', Value = Some 5\<rparr>,
      \<lparr>Time = Some 600, Name = Some ''Pump A Flow'', Value = None\<rparr>]"

definition row_no11 :: "real option row" where
  "row_no11 = \<lparr>Time = Some 600, Name = Some ''No11 Pump'', Value = Some 1\<rparr>"

definition row_padded :: "real option row" where
  "row_padded = \<lparr>Time = Some 600, Name = Some '' Pump A Flow'', Value = Some 1\<rparr>"

definition row_plain :: "real option row" where
  "row_plain = \<lparr>Time = Some 610, Name = Some ''Pump A Flow'', Value = Some 2\<rparr>"

text \<open>A windowed table with a repeated name and a missing one.\<close>

definition tbl_names :: "real option dataframe" where
  "tbl_names =
     [\<lparr>Time = Some 600, Name = Some ''Pump B Flow'', Value = Some 1\<rparr>,
      \<lparr>Time = Some 600, Name = Some ''Tank Level'', Value = Some 2\<rparr>,
      \<lparr>Time = Some 600, Name = None, Value = Some 3\<rparr>,
      \<lparr>Time = Some 600, Name = Some ''Pump A Flow'', Value = Some 4\<rparr>,
      \<lparr>Time = Some 610, Name = Some ''Pump B Flow'', Value = Some 5\<rparr>,
      \<lparr>Time = Some 610, Name = Some ''Valve'', Value = Some 6\<rparr>]"


text \<open>
  A sheet whose positions (1,1) to (2,2) are merged, and a corrupted one: a \<open>MergedCell\<close>
  that no merged range contains.
\<close>

definition r22 :: cell_range where
  "r22 = \<lparr>min_row = 1, min_col = 1, max_row = 2, max_col = 2\<rparr>"

definition ws_2x2 :: worksheet where
  "ws_2x2 =
     \<lparr>cells = (\<lambda>a. if a \<in> set [(1, 2), (2, 1), (2, 2)] then MergedCell else Cell Empty),
      merged_cells = [r22]\<rparr>"

definition ws_corrupt :: worksheet where
  "ws_corrupt =
     \<lparr>cells = (\<lambda>a. if a = (2, 2) then MergedCell else Cell Empty), merged_cells = []\<rparr>"

section \<open>Facts about the string operations\<close>

lemma all_dropWhile: "(\<forall>x \<in> set (dropWhile P s). P x) \<longleftrightarrow> (\<forall>x \<in> set s. P x)"
  by (induction s) auto

lemma str_strip_empty_iff: "str_strip s = [] \<longleftrightarrow> (\<forall>c \<in> set s. isspace c)"
  by (simp add: str_strip_def all_dropWhile)

lemma dropWhile_rev_dropWhile:
  "dropWhile P (rev (dropWhile P (rev (dropWhile P s)))) = rev (dropWhile P (rev (dropWhile P s)))"
  by (metis dropWhile_eq_self_iff dropWhile_idem dropWhile_last hd_rev
      last_in_set last_rev rev.simps(1))

lemma str_strip_idem: "str_strip (str_strip s) = str_strip s"
  by (simp add: str_strip_def dropWhile_rev_dropWhile)

lemma set_str_strip: "set (str_strip s) \<subseteq> set s"
  unfolding str_strip_def by (auto dest!: set_dropWhileD)

lemma split_from_nonempty: "k \<in> set (split_from w s) \<Longrightarrow> k \<noteq> []"
  by (induction w s rule: split_from.induct) (auto split: if_splits)

lemma split_from_chars: "k \<in> set (split_from w s) \<Longrightarrow> set k \<subseteq> set w \<union> set s"
  by (induction w s rule: split_from.induct) (auto split: if_splits)

lemma split_from_Nil_iff: "split_from w s = [] \<longleftrightarrow> w = [] \<and> (\<forall>c \<in> set s. isspace c)"
  by (induction w s rule: split_from.induct) auto

lemma str_split_Nil_iff: "str_split s = [] \<longleftrightarrow> (\<forall>c \<in> set s. isspace c)"
  by (simp add: str_split_def split_from_Nil_iff)

lemma str_split_chars: "k \<in> set (str_split s) \<Longrightarrow> set k \<subseteq> set s"
  using split_from_chars [of k "[]" s] by (simp add: str_split_def)

lemma filter_str_split: "filter (\<lambda>k. k \<noteq> []) (str_split s) = str_split s"
  by (simp add: str_split_def split_from_nonempty)

lemma split_from_spaces_right:
  "\<forall>c \<in> set t. isspace c \<Longrightarrow> split_from w (s @ t) = split_from w s"
proof (induction w s rule: split_from.induct)
  case (1 w)
  then show ?case by (induction t arbitrary: w) (auto simp: split_from_Nil_iff)
next
  case (2 w c cs)
  then show ?case by auto
qed

lemma split_from_dropWhile: "split_from [] (dropWhile isspace s) = split_from [] s"
  by (induction s) auto

lemma str_split_strip: "str_split (str_strip s) = str_split s"
proof -
  define u where "u = dropWhile isspace s"
  have "rev u = takeWhile isspace (rev u) @ dropWhile isspace (rev u)"
    by simp
  then have "u = rev (dropWhile isspace (rev u)) @ rev (takeWhile isspace (rev u))"
    by (metis rev_append rev_rev_ident)
  moreover have "\<forall>c \<in> set (rev (takeWhile isspace (rev u))). isspace c"
    by (auto dest: set_takeWhileD)
  ultimately have "split_from [] u = split_from [] (rev (dropWhile isspace (rev u)))"
    using split_from_spaces_right by metis
  then show ?thesis
    by (simp add: str_split_def str_strip_def u_def split_from_dropWhile)
qed

lemma str_in_sublist: "str_in p s \<longleftrightarrow> sublist p s"
  by (induction s) (auto simp: sublist_Cons_right)

lemma char_upper_lower: "char_upper (char_lower c) = char_upper c"
proof (cases "CHR ''A'' \<le> c \<and> c \<le> CHR ''Z''")
  case True
  define n where "n = (of_char c :: nat)"
  have n: "65 \<le> n" "n \<le> 90"
    using True by (simp_all add: less_eq_char_def n_def)
  have low: "char_lower c = char_of (n + 32)"
    using True by (simp add: char_lower_def n_def)
  have code: "(of_char (char_of (n + 32)) :: nat) = n + 32"
    using n by simp
  have "char_upper (char_of (n + 32)) = char_of n"
    using n by (simp add: char_upper_def less_eq_char_def code)
  moreover have "char_upper c = c"
    using n by (simp add: char_upper_def less_eq_char_def n_def [symmetric])
  moreover have "char_of n = c"
    by (simp add: n_def)
  ultimately show ?thesis by (simp add: low)
next
  case False
  then have "char_lower c = c" unfolding char_lower_def by (simp only: if_False)
  then show ?thesis by simp
qed

lemma str_upper_lower: "str_upper (str_lower s) = str_upper s"
  by (simp add: str_upper_def str_lower_def char_upper_lower)

subsection \<open>Patterns without special characters\<close>

lemma match_here_lits: "match_here (map Lit p) s = prefix (str_lower p) (str_lower s)"
  by (induction p arbitrary: s) (case_tac s; simp add: str_lower_def)+

lemma re_search_lits: "re_search (map Lit p) s = str_in (str_lower p) (str_lower s)"
  by (induction s) (auto simp add: match_here_lits str_lower_def)

lemma re_compile_literal:
  "\<forall>c \<in> set p. \<not> re_special c \<Longrightarrow> re_compile p = Returns (map Lit p)"
  by (induction p rule: re_compile.induct) (auto simp: re_special_def)

lemma str_contains_literal:
  "\<forall>c \<in> set p. \<not> re_special c \<Longrightarrow>
     str_contains (map g df) p = Returns (map (\<lambda>r. str_in (str_lower p) (str_lower (g r))) df)"
  by (simp add: str_contains_def re_compile_literal re_search_lits)

subsection \<open>Boolean indexing\<close>

lemma mask_rows_map: "mask_rows df (map P df) = filter P df"
  by (induction df) (simp_all add: mask_rows_def)

lemma exact_rows_filter: "exact_rows df name = filter (\<lambda>r. astype_str (Name r) = name) df"
  by (simp add: exact_rows_def mask_rows_map [symmetric] comp_def)

lemma map2_and_map: "map2 (\<and>) (map P df) (map Q df) = map (\<lambda>r. P r \<and> Q r) df"
  by (induction df) simp_all

lemma and_keywords_literal:
  "\<forall>k \<in> set kws. \<forall>c \<in> set k. \<not> re_special c \<Longrightarrow>
     and_keywords (map g df) (map P df) kws =
       Returns (map (\<lambda>r. P r \<and> list_all (\<lambda>k. str_in (str_lower k) (str_lower (g r))) kws) df)"
proof (induction kws arbitrary: P)
  case Nil
  then show ?case by simp
next
  case (Cons kw kws)
  have "and_keywords (map g df) (map P df) (kw # kws) =
          and_keywords (map g df)
            (map (\<lambda>r. P r \<and> str_in (str_lower kw) (str_lower (g r))) df) kws"
    using Cons.prems by (simp add: str_contains_literal map2_and_map)
  also have "\<dots> = Returns (map (\<lambda>r. (P r \<and> str_in (str_lower kw) (str_lower (g r))) \<and>
                 list_all (\<lambda>k. str_in (str_lower k) (str_lower (g r))) kws) df)"
    using Cons.prems by (intro Cons.IH) simp
  finally show ?case by simp
qed

section \<open>Facts about the aggregation\<close>

lemma coerce_row_None_iff:
  "coerce_row f r = None \<longleftrightarrow> Time r = None \<or> f (Value r) = None"
  by (simp add: coerce_row_def split: option.split)

lemma survivors_Nil_iff:
  "survivors f df = [] \<longleftrightarrow> (\<forall>r \<in> set df. Time r = None \<or> f (Value r) = None)"
  by (simp add: survivors_def List.map_filter_def filter_empty_conv coerce_row_None_iff)

lemma mset_survivors:
  assumes "mset df = mset df'"
  shows "mset (survivors f df) = mset (survivors f df')"
proof -
  have "mset (survivors f xs) =
          image_mset (the \<circ> coerce_row f) (filter_mset (\<lambda>r. coerce_row f r \<noteq> None) (mset xs))"
    for xs :: "'a row list"
    by (simp add: survivors_def List.map_filter_def)
  then show ?thesis using assms by simp
qed

lemma sorted_le_last: "sorted ys \<Longrightarrow> y \<in> set ys \<Longrightarrow> y \<le> last ys"
  by (induction ys) auto

text \<open>What a sorting permutation of the time column makes of the frame.\<close>

lemma sorting_perm_set:
  assumes "sorting_perm idx keys"
  shows "mset idx = mset [0..<length keys]" and "set idx = {0..<length keys}"
proof -
  have "sort idx = [0..<length keys]"
    using assms by (simp add: sorting_perm_def)
  then show m: "mset idx = mset [0..<length keys]"
    by (metis mset_sort)
  have "set idx = set [0..<length keys]"
    using m by (metis set_mset_mset)
  then show "set idx = {0..<length keys}" by simp
qed

lemma sorting_perm_two:
  assumes sp: "sorting_perm idx [600, 600]"
  shows "idx \<noteq> []" and "last idx = 0 \<or> last idx = 1"
proof -
  have u: "[0..<length [600::int, 600]] = [0, 1]" by code_simp
  have "mset idx = mset [0..<length [600::int, 600]]"
    using sp by (rule sorting_perm_set(1))
  then have "set idx = set [0, 1]"
    unfolding u by (metis set_mset_mset)
  then have st: "set idx = {0, 1}" by simp
  show ne: "idx \<noteq> []"
  proof
    assume "idx = []"
    then show False using st by simp
  qed
  then have "last idx \<in> set idx" by (rule last_in_set)
  then show "last idx = 0 \<or> last idx = 1" unfolding st by simp
qed

lemma sort_values_perm:
  assumes "sorting_perm (argsort (map fst df2)) (map fst df2)"
  shows "mset (sort_values argsort df2) = mset df2"
    and "sorted (map fst (sort_values argsort df2))"
proof -
  let ?idx = "argsort (map fst df2)"
  have m: "mset ?idx = mset [0..<length df2]" and s: "set ?idx = {0..<length df2}"
    using sorting_perm_set [OF assms] by simp_all
  have "mset (map ((!) df2) ?idx) = image_mset ((!) df2) (mset [0..<length df2])"
    using m by (metis mset_map)
  also have "\<dots> = mset (map ((!) df2) [0..<length df2])" by simp
  also have "\<dots> = mset df2" by (simp add: map_nth)
  finally show "mset (sort_values argsort df2) = mset df2"
    by (simp add: sort_values_def)
  have eq: "map fst (sort_values argsort df2) = map ((!) (map fst df2)) ?idx"
    unfolding sort_values_def using s by auto
  have "sorted (map ((!) (map fst df2)) ?idx)"
    using assms by (simp add: sorting_perm_def)
  then show "sorted (map fst (sort_values argsort df2))"
    by (simp only: eq)
qed

lemma last_sort_values:
  assumes "df2 \<noteq> []" "sorting_perm (argsort (map fst df2)) (map fst df2)"
  shows "last (sort_values argsort df2) \<in> set df2"
    and "\<forall>x \<in> set df2. fst x \<le> fst (last (sort_values argsort df2))"
proof -
  let ?ys = "sort_values argsort df2"
  have m: "mset ?ys = mset df2" and srt: "sorted (map fst ?ys)"
    using sort_values_perm [of argsort df2, OF assms(2)] by simp_all
  have st: "set ?ys = set df2" using m by (metis set_mset_mset)
  have ne: "?ys \<noteq> []" using m assms(1) by auto
  then have "last ?ys \<in> set ?ys" by (rule last_in_set)
  then show "last ?ys \<in> set df2" using st by simp
  have "last (map fst ?ys) = fst (last ?ys)" using ne by (simp add: last_map)
  then have "\<forall>y \<in> set (map fst ?ys). y \<le> fst (last ?ys)"
    using srt sorted_le_last by metis
  then show "\<forall>x \<in> set df2. fst x \<le> fst (last ?ys)" using st by simp
qed

lemma last_by_time_ties:
  assumes "df2 \<noteq> []" "last_ties_agree df2" "mset df2 = mset df2'"
    and "sorting_perm (argsort (map fst df2)) (map fst df2)"
    and "sorting_perm (argsort (map fst df2')) (map fst df2')"
  shows "last_by_time argsort df2 = last_by_time argsort df2'"
proof -
  have s: "set df2 = set df2'" using assms(3) by (metis set_mset_mset)
  have ne: "df2' \<noteq> []" using assms(1,3) by auto
  note a = last_sort_values [of df2 argsort, OF assms(1) assms(4)]
  note b = last_sort_values [of df2' argsort, OF ne assms(5)]
  show ?thesis
    using a b assms(2) unfolding last_ties_agree_def last_by_time_def s by blast
qed

lemma stable_argsort_sorts: "sorting_perm (stable_argsort keys) keys"
proof -
  let ?ps = "sort_key fst (zip keys [0..<length keys])"
  have "mset (map snd ?ps) = mset (map snd (zip keys [0..<length keys]))"
    by (metis mset_map mset_sort)
  then have "mset (map snd ?ps) = mset [0..<length keys]" by simp
  then have 1: "sort (map snd ?ps) = [0..<length keys]"
    by (metis sorted_upt properties_for_sort)
  have "\<forall>p \<in> set (zip keys [0..<length keys]). keys ! snd p = fst p"
    by (auto simp add: set_zip)
  then have "\<forall>p \<in> set ?ps. keys ! snd p = fst p" by simp
  then have "map ((!) keys) (map snd ?ps) = map fst ?ps" by simp
  then have 2: "sorted (map ((!) keys) (map snd ?ps))"
    by (simp add: sorted_sort_key del: map_map)
  show ?thesis using 1 2 by (simp add: sorting_perm_def stable_argsort_def)
qed

lemma agg_mode_case:
  assumes "str_lower a = str_lower b"
  shows "agg_mode (Some a) = agg_mode (Some b)"
proof -
  have "length a = length b"
    using assms by (metis length_map str_lower_def)
  then have e: "a = [] \<longleftrightarrow> b = []" by auto
  have "str_upper a = str_upper b"
    using assms by (metis str_upper_lower)
  then show ?thesis by (simp add: agg_mode_def e)
qed

lemma agg_mode_LAST: "agg_mode (Some ''LAST'') = ''LAST''"
  by code_simp

lemma agg_mode_spelling:
  "str_lower a = ''avg'' \<Longrightarrow> agg_mode (Some a) = ''AVG''"
  "str_lower a = ''max'' \<Longrightarrow> agg_mode (Some a) = ''MAX''"
  "str_lower a = ''min'' \<Longrightarrow> agg_mode (Some a) = ''MIN''"
  "str_lower a = ''sum'' \<Longrightarrow> agg_mode (Some a) = ''SUM''"
  "str_lower a = ''last'' \<Longrightarrow> agg_mode (Some a) = ''LAST''"
proof -
  have avg: "agg_mode (Some ''avg'') = ''AVG''" "str_lower ''avg'' = ''avg''" by code_simp+
  have mx: "agg_mode (Some ''max'') = ''MAX''" "str_lower ''max'' = ''max''" by code_simp+
  have mn: "agg_mode (Some ''min'') = ''MIN''" "str_lower ''min'' = ''min''" by code_simp+
  have sm: "agg_mode (Some ''sum'') = ''SUM''" "str_lower ''sum'' = ''sum''" by code_simp+
  have la: "agg_mode (Some ''last'') = ''LAST''" "str_lower ''last'' = ''last''" by code_simp+
  show "str_lower a = ''avg'' \<Longrightarrow> agg_mode (Some a) = ''AVG''"
    using agg_mode_case [of a "''avg''"] avg by simp
  show "str_lower a = ''max'' \<Longrightarrow> agg_mode (Some a) = ''MAX''"
    using agg_mode_case [of a "''max''"] mx by simp
  show "str_lower a = ''min'' \<Longrightarrow> agg_mode (Some a) = ''MIN''"
    using agg_mode_case [of a "''min''"] mn by simp
  show "str_lower a = ''sum'' \<Longrightarrow> agg_mode (Some a) = ''SUM''"
    using agg_mode_case [of a "''sum''"] sm by simp
  show "str_lower a = ''last'' \<Longrightarrow> agg_mode (Some a) = ''LAST''"
    using agg_mode_case [of a "''last''"] la by simp
qed

lemma agg_values_by_mode:
  "agg_mode a = agg_mode b \<Longrightarrow> agg_values A C f df a = agg_values A C f df b"
  by (simp add: agg_values_def)

lemma agg_values_modes:
  assumes "survivors f df \<noteq> []"
  shows "agg_mode a = ''LAST'' \<Longrightarrow> agg_values A C f df a = Some (last_by_time A (survivors f df))"
    and "agg_mode a = ''AVG'' \<Longrightarrow> agg_values A C f df a =
           Some (f64_round (C (map snd (survivors f df)) / real (length (survivors f df))))"
    and "agg_mode a = ''MAX'' \<Longrightarrow> agg_values A C f df a = Some (Max (set (map snd (survivors f df))))"
    and "agg_mode a = ''MIN'' \<Longrightarrow> agg_values A C f df a = Some (Min (set (map snd (survivors f df))))"
    and "agg_mode a = ''SUM'' \<Longrightarrow> agg_values A C f df a = Some (C (map snd (survivors f df)))"
    and "agg_mode a \<notin> {''AVG'', ''MAX'', ''MIN'', ''SUM''} \<Longrightarrow>
           agg_values A C f df a = Some (last_by_time A (survivors f df))"
proof -
  have ne: "df \<noteq> []" using assms by (auto simp: survivors_def)
  show "agg_mode a = ''LAST'' \<Longrightarrow> agg_values A C f df a = Some (last_by_time A (survivors f df))"
    using assms ne by (simp add: agg_values_def Let_def)
  show "agg_mode a = ''AVG'' \<Longrightarrow> agg_values A C f df a =
           Some (f64_round (C (map snd (survivors f df)) / real (length (survivors f df))))"
    using assms ne by (simp add: agg_values_def Let_def)
  show "agg_mode a = ''MAX'' \<Longrightarrow> agg_values A C f df a = Some (Max (set (map snd (survivors f df))))"
    using assms ne by (simp add: agg_values_def Let_def)
  show "agg_mode a = ''MIN'' \<Longrightarrow> agg_values A C f df a = Some (Min (set (map snd (survivors f df))))"
    using assms ne by (simp add: agg_values_def Let_def)
  show "agg_mode a = ''SUM'' \<Longrightarrow> agg_values A C f df a = Some (C (map snd (survivors f df)))"
    using assms ne by (simp add: agg_values_def Let_def)
  show "agg_mode a \<notin> {''AVG'', ''MAX'', ''MIN'', ''SUM''} \<Longrightarrow>
           agg_values A C f df a = Some (last_by_time A (survivors f df))"
    using assms ne by (simp add: agg_values_def Let_def)
qed

section \<open>Facts about the ranking\<close>

lemma slice_to_take: "\<exists>n. slice_to k xs = take n xs"
  by (auto simp: slice_to_def)

lemma length_slice_to: "0 \<le> k \<Longrightarrow> int (length (slice_to k xs)) \<le> k"
  by (simp add: slice_to_def)

lemma distinct_unique: "distinct (unique xs)"
  by (simp add: unique_def)

lemma set_unique: "set (unique xs) = set xs"
  by (simp add: unique_def)

lemma score_pos: "0 < score kws n \<Longrightarrow> \<exists>k \<in> set kws. str_in (str_lower k) (str_lower n)"
  by (auto simp add: score_def filter_empty_conv)

lemma ranked_hits:
  assumes "distinct cands"
  shows "sorted_wrt (ranked_before kws)
           (map snd (sort_key (\<lambda>h. (- fst h, snd h))
              (filter (\<lambda>h. 0 < fst h) (map (\<lambda>n. (score kws n, n)) cands))))"
proof -
  define key :: "int \<times> string \<Rightarrow> int \<times> string" where "key = (\<lambda>h. (- fst h, snd h))"
  define hits where "hits = filter (\<lambda>h. 0 < fst h) (map (\<lambda>n. (score kws n, n)) cands)"
  have sc: "\<forall>h \<in> set hits. fst h = score kws (snd h)"
    by (auto simp: hits_def)
  have "distinct (map snd hits)"
    using assms unfolding hits_def by (induction cands) auto
  then have dk: "distinct (map key hits)"
    unfolding key_def by (induction hits) auto
  have "distinct (map key (sort_key key hits))"
    using dk by (metis distinct_map distinct_sort set_sort)
  moreover have "sorted (map key (sort_key key hits))"
    by (rule sorted_sort_key)
  ultimately have "sorted_wrt (<) (map key (sort_key key hits))"
    by (simp add: strict_sorted_iff)
  then have "sorted_wrt (\<lambda>a b. key a < key b) (sort_key key hits)"
    by (simp add: sorted_wrt_map)
  then have "sorted_wrt (\<lambda>a b. ranked_before kws (snd a) (snd b)) (sort_key key hits)"
  proof (rule sorted_wrt_mono_rel [rotated])
    fix a b
    assume "a \<in> set (sort_key key hits)" "b \<in> set (sort_key key hits)" "key a < key b"
    then show "ranked_before kws (snd a) (snd b)"
      using sc by (auto simp add: key_def ranked_before_def less_prod_def)
  qed
  then show ?thesis
    by (simp add: sorted_wrt_map key_def hits_def)
qed


lemma miss_candidates_empty:
  "df = [] \<or> str_split src = [] \<Longrightarrow> miss_candidates df src topk = []"
  by (auto simp add: miss_candidates_def Let_def str_split_Nil_iff str_strip_empty_iff)

lemma miss_candidates_unfold:
  assumes "df \<noteq> []" "str_split src \<noteq> []"
  shows "miss_candidates df src topk =
           map snd (slice_to topk (sort_key (\<lambda>h. (- fst h, snd h))
             (filter (\<lambda>h. 0 < fst h)
                (map (\<lambda>n. (score (str_split src) n, n)) (unique (List.map_filter Name df))))))"
proof -
  have "str_strip src \<noteq> []"
    using assms(2) by (simp add: str_split_Nil_iff str_strip_empty_iff)
  then show ?thesis
    using assms by (simp add: miss_candidates_def Let_def filter_str_split str_split_strip)
qed

section \<open>Facts about the worksheet\<close>

lemma set_range_coords:
  "set (range_coords r) = {min_row r..max_row r} \<times> {min_col r..max_col r}"
  by (auto simp add: range_coords_def atLeastLessThanSuc_atLeastAtMost simp del: upt_Suc)

lemma range_coords_iff: "a \<in> set (range_coords r) \<longleftrightarrow> range_contains r a"
  by (cases a) (auto simp add: set_range_coords range_contains_def)

lemma anchor_in_range: "range_contains r a \<Longrightarrow> range_contains r (anchor r)"
  by (simp add: range_contains_def anchor_def)

lemma find_disjoint:
  "disjoint_ranges rs \<Longrightarrow> r \<in> set rs \<Longrightarrow> range_contains r a \<Longrightarrow>
     find (\<lambda>s. range_contains s a) rs = Some r"
  by (induction rs) (auto simp add: range_coords_iff)

lemma set_value_cell:
  "cells ws a \<noteq> MergedCell \<Longrightarrow> set_value ws a v = Returns (ws\<lparr>cells := (cells ws)(a := Cell v)\<rparr>)"
  by (cases "cells ws a") (simp_all add: set_value_def)

lemma safe_write_member:
  assumes "well_formed ws" "r \<in> set (merged_cells ws)" "range_contains r a"
  shows "safe_write_cell ws a v = Returns ((), ws\<lparr>cells := (cells ws)(anchor r := Cell v)\<rparr>)"
proof -
  have anc: "cells ws (anchor r) \<noteq> MergedCell"
    using assms anchor_in_range [of r a] by (auto simp add: well_formed_def range_coords_iff)
  show ?thesis
  proof (cases "a = anchor r")
    case True
    then obtain old where "cells ws a = Cell old"
      using anc by (cases "cells ws a") auto
    then show ?thesis
      using True anc by (simp add: safe_write_cell_def set_value_cell)
  next
    case False
    then have "cells ws a = MergedCell"
      using assms by (auto simp add: well_formed_def range_coords_iff)
    moreover have "find (\<lambda>s. range_contains s a) (merged_cells ws) = Some r"
      using assms by (intro find_disjoint) (simp_all add: well_formed_def)
    ultimately show ?thesis
      using anc by (simp add: safe_write_cell_def set_value_cell)
  qed
qed

lemma well_formed_write:
  assumes "well_formed ws" "r \<in> set (merged_cells ws)" "range_contains r a"
  shows "well_formed (ws\<lparr>cells := (cells ws)(anchor r := Cell v)\<rparr>)"
proof -
  have anc: "cells ws (anchor r) \<noteq> MergedCell"
    using assms anchor_in_range [of r a] by (auto simp add: well_formed_def range_coords_iff)
  then show ?thesis
    using assms(1) by (auto simp add: well_formed_def)
qed

lemma wf_2x2: "well_formed ws_2x2"
  by code_simp

section \<open>Facts about \<open>match_rows\<close>\<close>

text \<open>
  The exact tier has priority: when the stripped source name is not empty and some row
  carries it as its name, those rows are the result, and no pattern is compiled.
\<close>

lemma match_rows_exact:
  assumes "str_strip source_name \<noteq> []" "exact_rows df (str_strip source_name) \<noteq> []"
  shows "match_rows df source_name = Returns (exact_rows df (str_strip source_name))"
proof -
  have "df \<noteq> []" using assms(2) by (auto simp: exact_rows_filter)
  then show ?thesis using assms by (simp add: match_rows_def Let_def)
qed

text \<open>
  For a source name without special characters the patterns are plain text, and
  \<open>match_rows\<close> returns the first non-empty tier of the specification.
\<close>

lemma match_rows_literal:
  assumes "\<forall>c \<in> set source_name. \<not> re_special c"
  shows "match_rows df source_name = Returns (spec_resolve df source_name)"
proof -
  define name where "name = str_strip source_name"
  have lit: "\<forall>c \<in> set name. \<not> re_special c"
    using assms set_str_strip [of source_name] by (auto simp: name_def)
  have kws: "\<forall>k \<in> set (str_split name). \<forall>c \<in> set k. \<not> re_special c"
    using lit str_split_chars by blast
  have t2: "str_contains (map (astype_str \<circ> Name) df) name =
              Returns (map (\<lambda>r. str_in (str_lower name) (str_lower (astype_str (Name r)))) df)"
    using str_contains_literal [OF lit, of "astype_str \<circ> Name" df] by (simp add: comp_def)
  have t3: "and_keywords (map (astype_str \<circ> Name) df) (replicate (length df) True) (str_split name) =
              Returns (map (\<lambda>r. list_all (\<lambda>k. str_in (str_lower k) (str_lower (astype_str (Name r))))
                              (str_split name)) df)"
    using and_keywords_literal [OF kws, of "astype_str \<circ> Name" df "\<lambda>_. True"]
    by (simp add: comp_def map_replicate_const)
  show ?thesis
    unfolding match_rows_def spec_resolve_def Let_def name_def [symmetric]
    by (simp add: t2 t3 filter_str_split mask_rows_map substring_rows_def keyword_rows_def)
qed

lemma normalize_long_names:
  "r \<in> set (normalize_long raw) \<Longrightarrow> astype_str (Name r) = str_strip (astype_str (Name r))"
  by (auto simp add: normalize_long_def astype_str_def str_strip_idem)

text \<open>A source name that ends in a backslash is no regular expression: the call raises.\<close>

lemma match_rows_trailing_backslash:
  "match_rows [row_no11] (''Pump'' @ [CHR 0x5C]) = Raises ReError"
  by code_simp

section \<open>Claims about \<open>match_rows\<close>\<close>

text \<open>
  C9: for a source name that is empty or all whitespace, whatever the table holds, and
  for any source name when the table is empty, \<open>match_rows\<close> returns the empty table; it
  raises nothing, and the keyword tier is never reached.
\<close>

theorem match_rows_blank_or_empty:
  "(\<forall>c \<in> set source_name. isspace c) \<or> df = [] \<Longrightarrow> match_rows df source_name = Returns []"
  by (auto simp add: match_rows_def str_strip_empty_iff)

theorem match_rows_blank_or_empty_witness:
  "match_rows [\<lparr>Time = Some 0, Name = Some ''Pump A Flow'', Value = (12.5::real)\<rparr>]
     [CHR 0x20, CHR 0x09, CHR 0x20] = Returns []
   \<and> match_rows ([] :: real dataframe) ''Pump A Flow'' = Returns []"
  using match_rows_blank_or_empty
          [of "[CHR 0x20, CHR 0x09, CHR 0x20]"
              "[\<lparr>Time = Some 0, Name = Some ''Pump A Flow'', Value = (12.5::real)\<rparr>]"]
        match_rows_blank_or_empty [of "''Pump A Flow''" "[] :: real dataframe"]
  by (simp add: isspace_def)

text \<open>
  C1 at the source name \<open>No.1 Pump\<close> and a table whose only name is \<open>No11 Pump\<close>: no
  tier of the specification holds a row (the names differ, \<open>no.1 pump\<close> is no substring
  of \<open>no11 pump\<close>, and the keyword \<open>no.1\<close> is none either), yet \<open>match_rows\<close> returns the
  row, because \<open>str.contains\<close> reads the source name as a regular expression.
\<close>

theorem match_rows_regex_dot:
  "match_rows [row_no11] ''No.1 Pump'' = Returns [row_no11]
   \<and> exact_rows [row_no11] (str_strip ''No.1 Pump'') = []
   \<and> substring_rows [row_no11] (str_strip ''No.1 Pump'') = []
   \<and> keyword_rows [row_no11] (str_strip ''No.1 Pump'') = []
   \<and> spec_resolve [row_no11] ''No.1 Pump'' = []"
proof -
  have 1: "match_rows [row_no11] ''No.1 Pump'' = Returns [row_no11]" by code_simp
  have 2: "exact_rows [row_no11] (str_strip ''No.1 Pump'') = []" by code_simp
  have 3: "substring_rows [row_no11] (str_strip ''No.1 Pump'') = []" by code_simp
  have 4: "keyword_rows [row_no11] (str_strip ''No.1 Pump'') = []" by code_simp
  have 5: "spec_resolve [row_no11] ''No.1 Pump'' = []" by code_simp
  show ?thesis using 1 2 3 4 5 by simp
qed

text \<open>
  C2: the first tier holds the rows whose name as stored in the table equals,
  case-sensitively, the stripped source name, and it is the result when it is not
  empty. The names of the table are stripped when \<open>read_sources\<close> loads it, so that
  both sides are trimmed: on a loaded table a row is in the first tier exactly when its
  stripped name equals the stripped source name, and in particular a row of the source
  whose name carries leading or trailing whitespace around the stripped source name
  is, once loaded, in the first tier.
\<close>

theorem exact_tier_stored_names:
  "exact_rows df (str_strip source_name) =
     filter (\<lambda>r. astype_str (Name r) = str_strip source_name) df
   \<and> (str_strip source_name \<noteq> [] \<and> exact_rows df (str_strip source_name) \<noteq> [] \<longrightarrow>
        match_rows df source_name = Returns (exact_rows df (str_strip source_name)))
   \<and> (\<forall>r \<in> set (normalize_long raw).
        r \<in> set (exact_rows (normalize_long raw) (str_strip source_name)) \<longleftrightarrow>
        str_strip (astype_str (Name r)) = str_strip source_name)
   \<and> (\<forall>r \<in> set raw.
        Time r \<noteq> None \<and> str_strip (astype_str (Name r)) = str_strip source_name \<longrightarrow>
        r\<lparr>Name := Some (str_strip (astype_str (Name r)))\<rparr>
          \<in> set (exact_rows (normalize_long raw) (str_strip source_name)))"
proof -
  have "r\<lparr>Name := Some (str_strip (astype_str (Name r)))\<rparr>
          \<in> set (exact_rows (normalize_long raw) (str_strip source_name))"
    if "r \<in> set raw" "Time r \<noteq> None" "str_strip (astype_str (Name r)) = str_strip source_name"
    for r
  proof -
    let ?r' = "r\<lparr>Name := Some (str_strip (astype_str (Name r)))\<rparr>"
    have 1: "?r' \<in> set (normalize_long raw)"
      using that(1,2) by (auto simp add: normalize_long_def)
    have 2: "astype_str (Name ?r') = str_strip source_name"
      using that(3) by (simp add: astype_str_def)
    show ?thesis
      using 1 2 by (simp only: exact_rows_filter set_filter mem_Collect_eq simp_thms)
  qed
  then show ?thesis
    using normalize_long_names [of _ raw]
    by (auto simp add: exact_rows_filter match_rows_exact)
qed

theorem exact_tier_stored_names_witness:
  "exact_rows [row_padded, row_plain] (str_strip '' Pump A Flow '') = [row_plain]
   \<and> match_rows [row_padded, row_plain] '' Pump A Flow '' = Returns [row_plain]
   \<and> normalize_long [row_padded, row_plain] = [row_padded\<lparr>Name := Some ''Pump A Flow''\<rparr>, row_plain]
   \<and> row_padded\<lparr>Name := Some ''Pump A Flow''\<rparr>
        \<in> set (exact_rows (normalize_long [row_padded, row_plain]) (str_strip '' Pump A Flow ''))"
proof -
  have 1: "exact_rows [row_padded, row_plain] (str_strip '' Pump A Flow '') = [row_plain]"
    by code_simp
  have 2: "str_strip '' Pump A Flow '' \<noteq> []" by code_simp
  have 3: "normalize_long [row_padded, row_plain] =
             [row_padded\<lparr>Name := Some ''Pump A Flow''\<rparr>, row_plain]"
    by code_simp
  have 4: "str_strip (astype_str (Name (row_padded\<lparr>Name := Some ''Pump A Flow''\<rparr>))) =
             str_strip '' Pump A Flow ''"
    by code_simp
  note t = exact_tier_stored_names [of "[row_padded, row_plain]" "'' Pump A Flow ''"
             "[row_padded, row_plain]"]
  show ?thesis using t 1 2 3 4 by simp
qed

section \<open>Claims about \<open>agg_values\<close>\<close>

text \<open>
  C5: whatever the mode, \<open>agg_values\<close> returns absent (\<open>None\<close>, which is no number)
  exactly when no row survives the coercion: when the table is empty, or when every
  row has a value that fails the numeric coercion or a missing time.
\<close>

theorem agg_values_absent_iff:
  "agg_values A C f df a = None \<longleftrightarrow> (\<forall>r \<in> set df. Time r = None \<or> f (Value r) = None)"
  by (auto simp add: agg_values_def Let_def survivors_Nil_iff)

theorem agg_values_absent_iff_witness:
  "agg_values stable_argsort seq_sum id ([] :: real option dataframe) (Some ''AVG'') = None
   \<and> agg_values stable_argsort seq_sum id tbl_dropped (Some ''SUM'') = None
   \<and> agg_values stable_argsort seq_sum id tbl_pump (Some ''SUM'') = Some 25.5"
proof -
  have v: "agg_values stable_argsort seq_sum id tbl_pump (Some ''SUM'') = Some 25.5"
    by code_simp
  have d: "\<forall>r \<in> set tbl_dropped. Time r = None \<or> id (Value r) = None"
    by (simp add: tbl_dropped_def)
  show ?thesis
    using agg_values_absent_iff [of stable_argsort seq_sum id "[]" "Some ''AVG''"]
          agg_values_absent_iff [of stable_argsort seq_sum id tbl_dropped "Some ''SUM''"] d v
    by simp
qed

text \<open>
  C3, as claimed, fails twice. For \<open>LAST\<close>: whatever sorting permutation the library
  returns for two equal times, the two orders of two rows with the same time and the
  values 1 and 2 give different results. For \<open>SUM\<close>: whichever way the float64 sum
  associates three numbers, the table with the values 0.5, 1e16 and -1e16 and its
  reverse give different sums.
\<close>

theorem agg_values_order_counterexample:
  "\<not> (\<exists>argsort col_sum.
        sorting_perm (argsort [600, 600]) [600, 600] \<and>
        agg_values argsort col_sum id tbl_tie (Some ''LAST'') =
          agg_values argsort col_sum id (rev tbl_tie) (Some ''LAST''))
   \<and> \<not> (\<exists>argsort col_sum.
        f64_sum3 col_sum \<and>
        agg_values argsort col_sum id tbl_big (Some ''SUM'') =
          agg_values argsort col_sum id (rev tbl_big) (Some ''SUM''))"
proof (intro conjI notI)
  assume "\<exists>argsort col_sum.
        sorting_perm (argsort [600, 600]) [600, 600] \<and>
        agg_values argsort col_sum id tbl_tie (Some ''LAST'') =
          agg_values argsort col_sum id (rev tbl_tie) (Some ''LAST'')"
  then obtain A C where sp: "sorting_perm (A [600, 600]) [600, 600]"
    and eq: "agg_values A C id tbl_tie (Some ''LAST'') = agg_values A C id (rev tbl_tie) (Some ''LAST'')"
    by blast
  have s1: "survivors id tbl_tie = [(600, 1), (600, 2)]" by code_simp
  have s2: "survivors id (rev tbl_tie) = [(600, 2), (600, 1)]" by code_simp
  note ne = sorting_perm_two(1) [OF sp] and l = sorting_perm_two(2) [OF sp]
  have "agg_values A C id tbl_tie (Some ''LAST'') = Some (last_by_time A (survivors id tbl_tie))"
    by (rule agg_values_modes(1)) (simp_all add: s1 agg_mode_LAST)
  also have "last_by_time A (survivors id tbl_tie) =
               snd (last (map ((!) [(600::int, 1::real), (600, 2)]) (A [600, 600])))"
    by (simp add: last_by_time_def sort_values_def s1)
  also have "last (map ((!) [(600::int, 1::real), (600, 2)]) (A [600, 600])) =
               [(600::int, 1::real), (600, 2)] ! last (A [600, 600])"
    using ne by (rule last_map)
  finally have r1: "agg_values A C id tbl_tie (Some ''LAST'') =
                      Some (snd ([(600::int, 1::real), (600, 2)] ! last (A [600, 600])))" .
  have "agg_values A C id (rev tbl_tie) (Some ''LAST'') =
          Some (last_by_time A (survivors id (rev tbl_tie)))"
    by (rule agg_values_modes(1)) (simp_all add: s2 agg_mode_LAST)
  also have "last_by_time A (survivors id (rev tbl_tie)) =
               snd (last (map ((!) [(600::int, 2::real), (600, 1)]) (A [600, 600])))"
    by (simp add: last_by_time_def sort_values_def s2)
  also have "last (map ((!) [(600::int, 2::real), (600, 1)]) (A [600, 600])) =
               [(600::int, 2::real), (600, 1)] ! last (A [600, 600])"
    using ne by (rule last_map)
  finally have r2: "agg_values A C id (rev tbl_tie) (Some ''LAST'') =
                      Some (snd ([(600::int, 2::real), (600, 1)] ! last (A [600, 600])))" .
  from l show False
  proof
    assume "last (A [600, 600]) = 0"
    then show False using eq unfolding r1 r2 by simp
  next
    assume "last (A [600, 600]) = 1"
    then show False using eq unfolding r1 r2 by simp
  qed
next
  assume "\<exists>argsort col_sum.
        f64_sum3 col_sum \<and>
        agg_values argsort col_sum id tbl_big (Some ''SUM'') =
          agg_values argsort col_sum id (rev tbl_big) (Some ''SUM'')"
  then obtain A C where c: "f64_sum3 C"
    and eq: "agg_values A C id tbl_big (Some ''SUM'') = agg_values A C id (rev tbl_big) (Some ''SUM'')"
    by blast
  have s1: "survivors id tbl_big = [(600, 0.5), (601, 10000000000000000), (602, - 10000000000000000)]"
    by code_simp
  have s2: "survivors id (rev tbl_big) = [(602, - 10000000000000000), (601, 10000000000000000), (600, 0.5)]"
    by code_simp
  have m: "agg_mode (Some ''SUM'') = ''SUM''" by code_simp
  have r1: "agg_values A C id tbl_big (Some ''SUM'') = Some (C [0.5, 10000000000000000, - 10000000000000000])"
    by (simp add: agg_values_modes(5) m s1)
  have r2: "agg_values A C id (rev tbl_big) (Some ''SUM'') = Some (C [- 10000000000000000, 10000000000000000, 0.5])"
    by (simp add: agg_values_modes(5) m s2)
  have e: "C [0.5, 10000000000000000, - 10000000000000000] = C [- 10000000000000000, 10000000000000000, 0.5]"
    using eq unfolding r1 r2 by simp
  have l1: "f64_round (f64_round (0.5 + 10000000000000000) + - 10000000000000000) = 0" by code_simp
  have l2: "f64_round (f64_round (- 10000000000000000 + 10000000000000000) + 0.5) = 0.5" by code_simp
  have q1: "f64_round (0.5 + f64_round (10000000000000000 + - 10000000000000000)) = 0.5" by code_simp
  have q2: "f64_round (- 10000000000000000 + f64_round (10000000000000000 + 0.5)) = 0" by code_simp
  from c show False
    unfolding f64_sum3_def
  proof
    assume a: "\<forall>a b c. C [a, b, c] = f64_round (f64_round (a + b) + c)"
    have "C [0.5, 10000000000000000, - 10000000000000000] = 0"
      unfolding a [rule_format] by (rule l1)
    moreover have "C [- 10000000000000000, 10000000000000000, 0.5] = 0.5"
      unfolding a [rule_format] by (rule l2)
    ultimately show False using e by simp
  next
    assume a: "\<forall>a b c. C [a, b, c] = f64_round (a + f64_round (b + c))"
    have "C [0.5, 10000000000000000, - 10000000000000000] = 0.5"
      unfolding a [rule_format] by (rule q1)
    moreover have "C [- 10000000000000000, 10000000000000000, 0.5] = 0"
      unfolding a [rule_format] by (rule q2)
    ultimately show False using e by simp
  qed
qed

text \<open>
  C3, amended: on a permutation of the rows \<open>agg_values\<close> returns the same result for
  the modes MAX and MIN; for SUM and AVG when the library's float64 sum of the
  surviving values is their exact sum in both orders; and for \<open>LAST\<close> (and every mode
  that falls back to it) when the surviving rows that reach the maximal time all carry
  the same value.
\<close>

theorem agg_values_permutation:
  assumes "mset df = mset df'"
  shows "(agg_mode a \<in> {''MAX'', ''MIN''} \<longrightarrow>
            agg_values A C f df a = agg_values A C f df' a) \<and>
         (agg_mode a \<in> {''AVG'', ''SUM''} \<and>
          C (map snd (survivors f df)) = sum_list (map snd (survivors f df)) \<and>
          C (map snd (survivors f df')) = sum_list (map snd (survivors f df')) \<longrightarrow>
            agg_values A C f df a = agg_values A C f df' a) \<and>
         (agg_mode a \<notin> {''AVG'', ''MAX'', ''MIN'', ''SUM''} \<and>
          sorting_perm (A (map fst (survivors f df))) (map fst (survivors f df)) \<and>
          sorting_perm (A (map fst (survivors f df'))) (map fst (survivors f df')) \<and>
          last_ties_agree (survivors f df) \<longrightarrow>
            agg_values A C f df a = agg_values A C f df' a)"
proof (cases "survivors f df = []")
  case True
  have m: "mset (survivors f df) = mset (survivors f df')"
    using assms by (rule mset_survivors)
  then have "survivors f df' = []" using True by (metis mset_zero_iff)
  then have "agg_values A C f df a = None" "agg_values A C f df' a = None"
    using True by (simp_all add: agg_values_def Let_def)
  then show ?thesis by simp
next
  case False
  have m: "mset (survivors f df) = mset (survivors f df')"
    using assms by (rule mset_survivors)
  have ne': "survivors f df' \<noteq> []" using m False by (metis mset_zero_iff)
  have sm: "sum_list (map snd (survivors f df)) = sum_list (map snd (survivors f df'))"
    using m by (metis mset_map sum_mset_sum_list)
  have ln: "length (survivors f df) = length (survivors f df')"
    using m by (metis size_mset)
  have st: "set (survivors f df) = set (survivors f df')"
    using m by (metis set_mset_mset)
  note md = agg_values_modes [OF False, of a A C] and md' = agg_values_modes [OF ne', of a A C]
  show ?thesis
  proof (intro conjI impI)
    assume "agg_mode a \<in> {''MAX'', ''MIN''}"
    then show "agg_values A C f df a = agg_values A C f df' a"
      using md(3,4) md'(3,4) st by auto
  next
    assume "agg_mode a \<in> {''AVG'', ''SUM''} \<and>
          C (map snd (survivors f df)) = sum_list (map snd (survivors f df)) \<and>
          C (map snd (survivors f df')) = sum_list (map snd (survivors f df'))"
    then show "agg_values A C f df a = agg_values A C f df' a"
      using md(2,5) md'(2,5) sm ln by auto
  next
    assume h: "agg_mode a \<notin> {''AVG'', ''MAX'', ''MIN'', ''SUM''} \<and>
          sorting_perm (A (map fst (survivors f df))) (map fst (survivors f df)) \<and>
          sorting_perm (A (map fst (survivors f df'))) (map fst (survivors f df')) \<and>
          last_ties_agree (survivors f df)"
    then have "last_by_time A (survivors f df) = last_by_time A (survivors f df')"
      using last_by_time_ties [OF False _ m, of A] by blast
    then show "agg_values A C f df a = agg_values A C f df' a"
      using h md(6) md'(6) by simp
  qed
qed

theorem agg_values_permutation_witness:
  "mset tbl_pump = mset (rev tbl_pump)
   \<and> agg_mode (Some ''max'') \<in> {''MAX'', ''MIN''}
   \<and> agg_values stable_argsort seq_sum id tbl_pump (Some ''max'') =
       agg_values stable_argsort seq_sum id (rev tbl_pump) (Some ''max'')
   \<and> agg_values stable_argsort seq_sum id tbl_pump (Some ''max'') = Some 13
   \<and> agg_mode (Some ''avg'') \<in> {''AVG'', ''SUM''}
   \<and> seq_sum (map snd (survivors id tbl_pump)) = sum_list (map snd (survivors id tbl_pump))
   \<and> seq_sum (map snd (survivors id (rev tbl_pump))) = sum_list (map snd (survivors id (rev tbl_pump)))
   \<and> agg_values stable_argsort seq_sum id tbl_pump (Some ''avg'') =
       agg_values stable_argsort seq_sum id (rev tbl_pump) (Some ''avg'')
   \<and> agg_values stable_argsort seq_sum id tbl_pump (Some ''avg'') = Some 12.75
   \<and> agg_mode (Some ''LAST'') \<notin> {''AVG'', ''MAX'', ''MIN'', ''SUM''}
   \<and> last_ties_agree (survivors id tbl_pump)
   \<and> agg_values stable_argsort seq_sum id tbl_pump (Some ''LAST'') =
       agg_values stable_argsort seq_sum id (rev tbl_pump) (Some ''LAST'')
   \<and> agg_values stable_argsort seq_sum id tbl_pump (Some ''LAST'') = Some 13"
proof -
  have p: "mset tbl_pump = mset (rev tbl_pump)" by simp
  have m1: "agg_mode (Some ''max'') \<in> {''MAX'', ''MIN''}" by code_simp
  have m2: "agg_mode (Some ''avg'') \<in> {''AVG'', ''SUM''}" by code_simp
  have m3: "agg_mode (Some ''LAST'') \<notin> {''AVG'', ''MAX'', ''MIN'', ''SUM''}" by code_simp
  have e1: "seq_sum (map snd (survivors id tbl_pump)) = sum_list (map snd (survivors id tbl_pump))"
    by code_simp
  have e2: "seq_sum (map snd (survivors id (rev tbl_pump))) = sum_list (map snd (survivors id (rev tbl_pump)))"
    by code_simp
  have t: "last_ties_agree (survivors id tbl_pump)" by code_simp
  have sp: "sorting_perm (stable_argsort keys) keys" for keys
    by (rule stable_argsort_sorts)
  have v1: "agg_values stable_argsort seq_sum id tbl_pump (Some ''max'') = Some 13" by code_simp
  have v2: "agg_values stable_argsort seq_sum id tbl_pump (Some ''avg'') = Some 12.75" by code_simp
  have v3: "agg_values stable_argsort seq_sum id tbl_pump (Some ''LAST'') = Some 13" by code_simp
  show ?thesis
    using agg_values_permutation [OF p, of "Some ''max''" stable_argsort seq_sum id]
          agg_values_permutation [OF p, of "Some ''avg''" stable_argsort seq_sum id]
          agg_values_permutation [OF p, of "Some ''LAST''" stable_argsort seq_sum id]
          p m1 m2 m3 e1 e2 t sp v1 v2 v3
    by blast
qed

text \<open>
  C6: two mode strings that differ only in the case of their letters give the same
  result; a mode that is missing, empty or none of AVG, MAX, MIN, SUM behaves as
  \<open>LAST\<close>; the spellings of avg, max, min and sum in any case select the mean, the
  maximum, the minimum and the sum of the surviving values; and \<open>LAST\<close> returns the
  value of the last row of the surviving rows sorted ascending by time, a row whose
  time is the greatest of all.
\<close>

theorem agg_values_mode_selector:
  "(str_lower a = str_lower b \<longrightarrow> agg_values A C f df (Some a) = agg_values A C f df (Some b)) \<and>
   (agg_mode m \<notin> {''AVG'', ''MAX'', ''MIN'', ''SUM''} \<longrightarrow>
      agg_values A C f df m = agg_values A C f df (Some ''LAST'')) \<and>
   (survivors f df \<noteq> [] \<longrightarrow>
      (str_lower a = ''avg'' \<longrightarrow> agg_values A C f df (Some a) =
         Some (f64_round (C (map snd (survivors f df)) / real (length (survivors f df))))) \<and>
      (str_lower a = ''max'' \<longrightarrow> agg_values A C f df (Some a) =
         Some (Max (set (map snd (survivors f df))))) \<and>
      (str_lower a = ''min'' \<longrightarrow> agg_values A C f df (Some a) =
         Some (Min (set (map snd (survivors f df))))) \<and>
      (str_lower a = ''sum'' \<longrightarrow> agg_values A C f df (Some a) =
         Some (C (map snd (survivors f df)))) \<and>
      (str_lower a = ''last'' \<longrightarrow> agg_values A C f df (Some a) =
         Some (snd (last (sort_values A (survivors f df)))))) \<and>
   (survivors f df \<noteq> [] \<and>
    sorting_perm (A (map fst (survivors f df))) (map fst (survivors f df)) \<longrightarrow>
      agg_values A C f df (Some ''LAST'') = Some (snd (last (sort_values A (survivors f df)))) \<and>
      sorted (map fst (sort_values A (survivors f df))) \<and>
      mset (sort_values A (survivors f df)) = mset (survivors f df) \<and>
      last (sort_values A (survivors f df)) \<in> set (survivors f df) \<and>
      (\<forall>x \<in> set (survivors f df). fst x \<le> fst (last (sort_values A (survivors f df)))))"
proof (intro conjI impI)
  assume "str_lower a = str_lower b"
  then show "agg_values A C f df (Some a) = agg_values A C f df (Some b)"
    by (intro agg_values_by_mode agg_mode_case)
next
  assume "agg_mode m \<notin> {''AVG'', ''MAX'', ''MIN'', ''SUM''}"
  then show "agg_values A C f df m = agg_values A C f df (Some ''LAST'')"
    by (simp add: agg_values_def Let_def agg_mode_LAST)
next
  assume "survivors f df \<noteq> []" "str_lower a = ''avg''"
  then show "agg_values A C f df (Some a) =
         Some (f64_round (C (map snd (survivors f df)) / real (length (survivors f df))))"
    by (simp add: agg_values_modes(2) agg_mode_spelling(1))
next
  assume "survivors f df \<noteq> []" "str_lower a = ''max''"
  then show "agg_values A C f df (Some a) = Some (Max (set (map snd (survivors f df))))"
    by (simp add: agg_values_modes(3) agg_mode_spelling(2))
next
  assume "survivors f df \<noteq> []" "str_lower a = ''min''"
  then show "agg_values A C f df (Some a) = Some (Min (set (map snd (survivors f df))))"
    by (simp add: agg_values_modes(4) agg_mode_spelling(3))
next
  assume "survivors f df \<noteq> []" "str_lower a = ''sum''"
  then show "agg_values A C f df (Some a) = Some (C (map snd (survivors f df)))"
    by (simp add: agg_values_modes(5) agg_mode_spelling(4))
next
  assume "survivors f df \<noteq> []" "str_lower a = ''last''"
  then show "agg_values A C f df (Some a) = Some (snd (last (sort_values A (survivors f df))))"
    by (simp add: agg_values_modes(1) agg_mode_spelling(5) last_by_time_def)
next
  assume h: "survivors f df \<noteq> [] \<and>
    sorting_perm (A (map fst (survivors f df))) (map fst (survivors f df))"
  then show "agg_values A C f df (Some ''LAST'') = Some (snd (last (sort_values A (survivors f df))))"
    by (simp add: agg_values_modes(1) agg_mode_LAST last_by_time_def)
  from h show "sorted (map fst (sort_values A (survivors f df)))"
    using sort_values_perm(2) [of A "survivors f df"] by blast
  from h show "mset (sort_values A (survivors f df)) = mset (survivors f df)"
    using sort_values_perm(1) [of A "survivors f df"] by blast
  from h show "last (sort_values A (survivors f df)) \<in> set (survivors f df)"
    using last_sort_values(1) [of "survivors f df" A] by blast
  from h show "\<forall>x \<in> set (survivors f df). fst x \<le> fst (last (sort_values A (survivors f df)))"
    using last_sort_values(2) [of "survivors f df" A] by blast
qed

theorem agg_values_mode_selector_witness:
  "str_lower ''Avg'' = str_lower ''AVG''
   \<and> agg_values stable_argsort seq_sum id tbl_pump (Some ''Avg'') =
       agg_values stable_argsort seq_sum id tbl_pump (Some ''AVG'')
   \<and> agg_mode (Some ''median'') \<notin> {''AVG'', ''MAX'', ''MIN'', ''SUM''}
   \<and> agg_values stable_argsort seq_sum id tbl_pump (Some ''median'') =
       agg_values stable_argsort seq_sum id tbl_pump (Some ''LAST'')
   \<and> agg_mode None \<notin> {''AVG'', ''MAX'', ''MIN'', ''SUM''}
   \<and> agg_values stable_argsort seq_sum id tbl_pump None =
       agg_values stable_argsort seq_sum id tbl_pump (Some ''LAST'')
   \<and> survivors id tbl_pump \<noteq> []
   \<and> str_lower ''Avg'' = ''avg''
   \<and> agg_values stable_argsort seq_sum id tbl_pump (Some ''Avg'') = Some 12.75
   \<and> sorting_perm (stable_argsort (map fst (survivors id tbl_pump))) (map fst (survivors id tbl_pump))
   \<and> agg_values stable_argsort seq_sum id tbl_pump (Some ''LAST'') = Some 13"
proof -
  have h1: "str_lower ''Avg'' = str_lower ''AVG''" by code_simp
  have h2: "agg_mode (Some ''median'') \<notin> {''AVG'', ''MAX'', ''MIN'', ''SUM''}" by code_simp
  have h3: "agg_mode None \<notin> {''AVG'', ''MAX'', ''MIN'', ''SUM''}" by code_simp
  have h4: "survivors id tbl_pump \<noteq> []" by code_simp
  have h5: "str_lower ''Avg'' = ''avg''" by code_simp
  have h6: "sorting_perm (stable_argsort (map fst (survivors id tbl_pump))) (map fst (survivors id tbl_pump))"
    by (rule stable_argsort_sorts)
  have v1: "f64_round (seq_sum (map snd (survivors id tbl_pump)) / real (length (survivors id tbl_pump))) = 12.75"
    by code_simp
  have v2: "snd (last (sort_values stable_argsort (survivors id tbl_pump))) = 13" by code_simp
  show ?thesis
    using agg_values_mode_selector [of "''Avg''" "''AVG''" stable_argsort seq_sum id tbl_pump "Some ''median''"]
          agg_values_mode_selector [of "''Avg''" "''AVG''" stable_argsort seq_sum id tbl_pump None]
          h1 h2 h3 h4 h5 h6 v1 v2
    by simp
qed

section \<open>Claims about \<open>miss_candidates\<close>\<close>

text \<open>
  C7: for a count \<open>topk\<close> (a number that is at least 0) at most \<open>topk\<close> names are
  returned; every returned name is a name of the table that contains at least one
  keyword of the source name as a case-insensitive substring (its score is positive),
  and the names are in the order of descending score, names of equal score ascending,
  so that the table and the source name determine the sequence.
\<close>

theorem miss_candidates_ranked:
  "(0 \<le> topk \<longrightarrow> int (length (miss_candidates df src topk)) \<le> topk) \<and>
   (\<forall>n \<in> set (miss_candidates df src topk).
      Some n \<in> Name ` set df \<and> 0 < score (str_split src) n \<and>
      (\<exists>k \<in> set (str_split src). str_in (str_lower k) (str_lower n))) \<and>
   sorted_wrt (ranked_before (str_split src)) (miss_candidates df src topk)"
proof (cases "df = [] \<or> str_split src = []")
  case True
  then have "miss_candidates df src topk = []" by (rule miss_candidates_empty)
  then show ?thesis by simp
next
  case False
  define kws where "kws = str_split src"
  define cands where "cands = unique (List.map_filter Name df)"
  define hits where "hits = filter (\<lambda>h. 0 < fst h) (map (\<lambda>n. (score kws n, n)) cands)"
  define sh where "sh = sort_key (\<lambda>h. (- fst h, snd h)) hits"
  have res: "miss_candidates df src topk = map snd (slice_to topk sh)"
    using False by (simp add: miss_candidates_unfold kws_def cands_def hits_def sh_def)
  obtain m where m: "slice_to topk sh = take m sh"
    using slice_to_take by blast
  have len: "0 \<le> topk \<longrightarrow> int (length (miss_candidates df src topk)) \<le> topk"
    using length_slice_to [of topk sh] by (simp add: res)
  have "set (slice_to topk sh) \<subseteq> set sh"
    unfolding m by (rule set_take_subset)
  then have "set (slice_to topk sh) \<subseteq> set hits"
    by (simp add: sh_def)
  then have sub: "set (miss_candidates df src topk) \<subseteq> snd ` set hits"
    unfolding res by auto
  have el: "Some n \<in> Name ` set df \<and> 0 < score kws n" if "n \<in> snd ` set hits" for n
  proof -
    from that have "n \<in> set cands" "0 < score kws n"
      by (auto simp: hits_def)
    moreover have "set cands = {x. \<exists>r \<in> set df. Name r = Some x}"
      by (force simp add: cands_def set_unique List.map_filter_def)
    ultimately show ?thesis by force
  qed
  have "sorted_wrt (ranked_before kws) (map snd sh)"
    unfolding sh_def hits_def cands_def by (rule ranked_hits) (rule distinct_unique)
  then have "sorted_wrt (ranked_before kws) (take m (map snd sh))"
    by (rule sorted_wrt_take)
  then have srt: "sorted_wrt (ranked_before kws) (miss_candidates df src topk)"
    by (simp add: res m take_map)
  show ?thesis
    using len sub el srt score_pos [of kws] unfolding kws_def by blast
qed

theorem miss_candidates_ranked_witness:
  "miss_candidates tbl_names ''pump a'' 2 = [''Pump A Flow'', ''Pump B Flow'']
   \<and> (0::int) \<le> 2
   \<and> int (length (miss_candidates tbl_names ''pump a'' 2)) \<le> 2
   \<and> 0 < score (str_split ''pump a'') ''Pump B Flow''
   \<and> sorted_wrt (ranked_before (str_split ''pump a'')) (miss_candidates tbl_names ''pump a'' 2)"
proof -
  have v: "miss_candidates tbl_names ''pump a'' 2 = [''Pump A Flow'', ''Pump B Flow'']"
    by code_simp
  note t = miss_candidates_ranked [of 2 tbl_names "''pump a''"]
  show ?thesis using t v by simp
qed

text \<open>
  C10: \<open>miss_candidates\<close> returns the empty list when the windowed table is empty, when
  the source name strips to the empty string, and when it splits into no keywords,
  whatever names the table holds.
\<close>

theorem miss_candidates_no_keywords:
  "df_win = [] \<or> str_strip src = [] \<or> str_split (str_strip src) = [] \<or> str_split src = [] \<Longrightarrow>
     miss_candidates df_win src topk = []"
  using miss_candidates_empty [of df_win src topk]
  by (auto simp add: str_split_Nil_iff str_strip_empty_iff str_split_strip)

theorem miss_candidates_no_keywords_witness:
  "miss_candidates ([] :: real option dataframe) ''pump a'' 5 = []
   \<and> str_strip [CHR 0x20, CHR 0x09] = []
   \<and> str_split [CHR 0x20, CHR 0x09] = []
   \<and> miss_candidates tbl_names [CHR 0x20, CHR 0x09] 5 = []"
proof -
  have 1: "str_strip [CHR 0x20, CHR 0x09] = []" by code_simp
  have 2: "str_split [CHR 0x20, CHR 0x09] = []" by code_simp
  show ?thesis
    using miss_candidates_no_keywords [of "[] :: real option dataframe" "''pump a''" 5]
          miss_candidates_no_keywords [of tbl_names "[CHR 0x20, CHR 0x09]" 5] 1 2
    by simp
qed

section \<open>Claims about \<open>_safe_write_cell\<close>\<close>

text \<open>
  C8: on a well-formed sheet, a write to any position of a merged range returns, puts
  the value in the cell at the range's top-left position and changes no other cell
  and no range; a second write to any position of the same range lands in the same
  cell, so the sheet differs from the first one at that cell only, which now holds the
  second value.
\<close>

theorem safe_write_cell_merged_region:
  assumes "well_formed ws" "r \<in> set (merged_cells ws)" "range_contains r a" "range_contains r b"
  shows "\<exists>ws'. safe_write_cell ws a v = Returns ((), ws') \<and>
           cells ws' (anchor r) = Cell v \<and>
           (\<forall>c. c \<noteq> anchor r \<longrightarrow> cells ws' c = cells ws c) \<and>
           merged_cells ws' = merged_cells ws \<and>
           (\<exists>ws''. safe_write_cell ws' b w = Returns ((), ws'') \<and>
              cells ws'' (anchor r) = Cell w \<and>
              (\<forall>c. c \<noteq> anchor r \<longrightarrow> cells ws'' c = cells ws c) \<and>
              merged_cells ws'' = merged_cells ws)"
proof -
  let ?ws' = "ws\<lparr>cells := (cells ws)(anchor r := Cell v)\<rparr>"
  have 1: "safe_write_cell ws a v = Returns ((), ?ws')"
    using assms(1-3) by (rule safe_write_member)
  have wf: "well_formed ?ws'"
    using assms(1-3) by (rule well_formed_write)
  have "safe_write_cell ?ws' b w = Returns ((), ?ws'\<lparr>cells := (cells ?ws')(anchor r := Cell w)\<rparr>)"
    using wf assms(2,4) by (intro safe_write_member) simp_all
  then show ?thesis using 1 by simp
qed

theorem safe_write_cell_merged_region_witness:
  "well_formed ws_2x2 \<and> r22 \<in> set (merged_cells ws_2x2)
   \<and> range_contains r22 (2, 2) \<and> range_contains r22 (1, 2) \<and> anchor r22 = (1, 1)
   \<and> (\<exists>ws'. safe_write_cell ws_2x2 (2, 2) (Number 13) = Returns ((), ws') \<and>
         cells ws' (1, 1) = Cell (Number 13) \<and>
         (\<exists>ws''. safe_write_cell ws' (1, 2) (Text ''NA'') = Returns ((), ws'') \<and>
            cells ws'' (1, 1) = Cell (Text ''NA'')))"
proof -
  have h1: "well_formed ws_2x2" by (rule wf_2x2)
  have h2: "r22 \<in> set (merged_cells ws_2x2)" by (simp add: ws_2x2_def)
  have h3: "range_contains r22 (2, 2)" by (simp add: range_contains_def r22_def)
  have h4: "range_contains r22 (1, 2)" by (simp add: range_contains_def r22_def)
  have h5: "anchor r22 = (1, 1)" by (simp add: anchor_def r22_def)
  show ?thesis
    using safe_write_cell_merged_region [OF h1 h2 h3 h4, of "Number 13" "Text ''NA''"] h1 h2 h3 h4 h5
    by auto
qed

text \<open>
  C4, as claimed, fails: the write to a \<open>MergedCell\<close> that no range contains changes
  nothing and returns \<open>None\<close>; the successful write to a position of a merged range
  returns \<open>None\<close> too: the caller receives the same from both calls.
\<close>

theorem safe_write_cell_void_counterexample:
  "cells ws_corrupt (2, 2) = MergedCell
   \<and> find (\<lambda>r. range_contains r (2, 2)) (merged_cells ws_corrupt) = None
   \<and> safe_write_cell ws_corrupt (2, 2) (Text ''NA'') = Returns ((), ws_corrupt)
   \<and> safe_write_cell ws_2x2 (2, 2) (Text ''NA'') =
       Returns ((), ws_2x2\<lparr>cells := (cells ws_2x2)((1, 1) := Cell (Text ''NA''))\<rparr>)
   \<and> signal (safe_write_cell ws_corrupt (2, 2) (Text ''NA'')) =
       signal (safe_write_cell ws_2x2 (2, 2) (Text ''NA''))"
  by (simp add: safe_write_cell_def set_value_def ws_corrupt_def ws_2x2_def r22_def
        range_contains_def anchor_def)

text \<open>
  C4, amended: when the position holds a \<open>MergedCell\<close> and no merged range contains it,
  the call returns \<open>None\<close> and the sheet is unchanged; the caller receives what it
  receives from every call that returns, so the skip is not surfaced.
\<close>

theorem safe_write_cell_void:
  assumes "cells ws a = MergedCell" "\<forall>r \<in> set (merged_cells ws). \<not> range_contains r a"
  shows "safe_write_cell ws a v = Returns ((), ws) \<and>
         signal (safe_write_cell ws a v) = Returns () \<and>
         (\<forall>ws2 a2 v2 ws2'. safe_write_cell ws2 a2 v2 = Returns ((), ws2') \<longrightarrow>
            signal (safe_write_cell ws2 a2 v2) = signal (safe_write_cell ws a v))"
proof -
  have "find (\<lambda>r. range_contains r a) (merged_cells ws) = None"
    using assms(2) by (simp add: find_None_iff)
  then have "safe_write_cell ws a v = Returns ((), ws)"
    using assms(1) by (simp add: safe_write_cell_def)
  then show ?thesis by simp
qed

theorem safe_write_cell_void_witness:
  "cells ws_corrupt (2, 2) = MergedCell
   \<and> safe_write_cell ws_corrupt (2, 2) (Text ''NA'') = Returns ((), ws_corrupt)
   \<and> signal (safe_write_cell ws_corrupt (2, 2) (Text ''NA'')) = Returns ()
   \<and> signal (safe_write_cell ws_2x2 (2, 2) (Text ''NA'')) =
       signal (safe_write_cell ws_corrupt (2, 2) (Text ''NA''))"
proof -
  have h1: "cells ws_corrupt (2, 2) = MergedCell" by (simp add: ws_corrupt_def)
  have h2: "\<forall>r \<in> set (merged_cells ws_corrupt). \<not> range_contains r (2, 2)"
    by (simp add: ws_corrupt_def)
  have s: "safe_write_cell ws_2x2 (2, 2) (Text ''NA'') =
       Returns ((), ws_2x2\<lparr>cells := (cells ws_2x2)((1, 1) := Cell (Text ''NA''))\<rparr>)"
    by (simp add: safe_write_cell_def set_value_def ws_2x2_def r22_def
        range_contains_def anchor_def)
  show ?thesis
    using safe_write_cell_void [OF h1 h2, of "Text ''NA''"] h1 s by simp
qed

end
